theory Spec2Isabelle
  imports Complex_Main "HOL-Library.Sublist" "HOL-Library.Multiset"
begin

section \<open>Entropy measures of skmob/measures/individual.py\<close>

text \<open>
  The theory embeds the three per-individual entropy functions of
  \<^verbatim>\<open>src/skmob/measures/individual.py\<close>: \<^verbatim>\<open>_random_entropy_individual\<close>,
  \<^verbatim>\<open>_uncorrelated_entropy_individual\<close> and \<^verbatim>\<open>_true_entropy\<close> (with
  \<^verbatim>\<open>_stringify\<close> and \<^verbatim>\<open>_real_entropy_individual\<close>).

  Numbers. Python and numpy floats are modelled by the reals, so rounding is not
  modelled; the IEEE special values that the code can produce from \<^verbatim>\<open>np.log2(0)\<close>
  are kept as constructors of their own. Counts and loop indices are natural numbers.
\<close>

subsection \<open>Values and errors\<close>

datatype npfloat = Finite real | PosInf | NegInf | NaN

datatype error = ZeroDivisionError | EmptyInputError

text \<open>
  \<open>ZeroDivisionError\<close> is what Python's float division \<^verbatim>\<open>1. / sum_lambda\<close> raises on a zero
  divisor. \<open>EmptyInputError\<close> is the error kind named by the specification; the source has
  no \<^verbatim>\<open>raise\<close> statement at all, so no definition below produces it.
\<close>

definition np_log2 :: "nat \<Rightarrow> npfloat" where
  \<comment> \<open>\<^verbatim>\<open>np.log2\<close> of a count: \<^verbatim>\<open>-inf\<close> (with a warning, no exception) at 0.\<close>
  "np_log2 n = (if n = 0 then NegInf else Finite (log 2 (real n)))"

fun fmul :: "real \<Rightarrow> npfloat \<Rightarrow> npfloat" where
  \<comment> \<open>a finite float times a numpy float, as IEEE multiplication\<close>
  "fmul x (Finite y) = Finite (x * y)"
| "fmul x PosInf = (if x = 0 then NaN else if 0 < x then PosInf else NegInf)"
| "fmul x NegInf = (if x = 0 then NaN else if 0 < x then NegInf else PosInf)"
| "fmul x NaN = NaN"

subsection \<open>Python strings and slices\<close>

fun join :: "string \<Rightarrow> string list \<Rightarrow> string" where
  \<comment> \<open>\<^verbatim>\<open>sep.join(parts)\<close>\<close>
  "join sep [] = []"
| "join sep [x] = x"
| "join sep (x # y # ys) = x @ sep @ join sep (y # ys)"

definition slice :: "'a list \<Rightarrow> nat \<Rightarrow> nat \<Rightarrow> 'a list" where
  \<comment> \<open>\<^verbatim>\<open>xs[a:b]\<close> for \<open>0 \<le> a \<le> b\<close>; Python clamps both bounds to the length\<close>
  "slice xs a b = take (b - a) (drop a xs)"

fun digit_char :: "nat \<Rightarrow> char" where
  "digit_char n = char_of (48 + n)"

fun str_nat :: "nat \<Rightarrow> string" where
  "str_nat n = (if n < 10 then [digit_char n] else str_nat (n div 10) @ [digit_char (n mod 10)])"

declare str_nat.simps [simp del]

definition str_int :: "int \<Rightarrow> string" where
  \<comment> \<open>\<^verbatim>\<open>str(k)\<close> of a Python integer\<close>
  "str_int k = (if k < 0 then CHR ''-'' # str_nat (nat (- k)) else str_nat (nat k))"

definition str_whole :: "int \<Rightarrow> string" where
  \<comment> \<open>\<^verbatim>\<open>str(x)\<close> of a float (Python or numpy float64) whose value is the integer \<open>k\<close>,
      \<open>\<bar>k\<bar> < 10^16\<close>: the integer's digits followed by \<^verbatim>\<open>.0\<close>, as in \<^verbatim>\<open>str(11.0) == '11.0'\<close>\<close>
  "str_whole k = str_int k @ ''.0''"

subsection \<open>The real-entropy scan\<close>

text \<open>
  A symbol is the tuple of fields of one visit (latitude and longitude in
  \<^verbatim>\<open>_real_entropy_individual\<close>), a list of fields here. \<open>str_of\<close> stands for Python's
  \<^verbatim>\<open>str\<close> on a field.
\<close>

definition stringify :: "('f \<Rightarrow> string) \<Rightarrow> 'f list list \<Rightarrow> string" where
  \<comment> \<open>\<^verbatim>\<open>'|'.join(['_'.join(list(map(str, r))) for r in seq])\<close>\<close>
  "stringify str_of seq = join ''|'' (map (\<lambda>r. join ''_'' (map str_of r)) seq)"

definition occurs :: "('f \<Rightarrow> string) \<Rightarrow> 'f list list \<Rightarrow> nat \<Rightarrow> nat \<Rightarrow> bool" where
  \<comment> \<open>the loop condition \<^verbatim>\<open>str_sub_seq in str_seq\<close> with
      \<^verbatim>\<open>str_seq = _stringify(sequence[:i])\<close> and \<^verbatim>\<open>str_sub_seq = _stringify(sequence[i:i + j])\<close>;
      Python's \<^verbatim>\<open>in\<close> on strings is substring search\<close>
  "occurs str_of sequence i j =
     sublist (stringify str_of (slice sequence i (i + j))) (stringify str_of (take i sequence))"

text \<open>
  The inner \<^verbatim>\<open>while\<close> loop, entered with the current \<open>j\<close>. It has no bound of its own (it
  leaves only when the test fails or when \<open>i + j\<close> hits \<open>n\<close> exactly), so it is a partial
  function: \<open>None\<close> is a loop that never returns.
\<close>

partial_function (option) match_loop ::
  "('f \<Rightarrow> string) \<Rightarrow> 'f list list \<Rightarrow> nat \<Rightarrow> nat \<Rightarrow> nat option" where
  "match_loop str_of sequence i j =
     (if occurs str_of sequence i j
      then (let j' = j + 1
            in if i + j' = length sequence then Some (j' + 1)
               else match_loop str_of sequence i j')
      else Some j)"

declare match_loop.simps [code]

text \<open>
  The outer \<^verbatim>\<open>for i in range(1, n - 1)\<close> loop over the remaining indices, carrying
  \<^verbatim>\<open>sum_lambda\<close> (a float). Each pass starts the inner loop at \<open>j = 1\<close>.
\<close>

fun sum_loop :: "('f \<Rightarrow> string) \<Rightarrow> 'f list list \<Rightarrow> nat list \<Rightarrow> real \<Rightarrow> real option" where
  "sum_loop str_of sequence [] sum_lambda = Some sum_lambda"
| "sum_loop str_of sequence (i # is) sum_lambda =
     (case match_loop str_of sequence i 1 of
        None \<Rightarrow> None
      | Some j \<Rightarrow> sum_loop str_of sequence is (sum_lambda + real j))"

definition scan_sum :: "('f \<Rightarrow> string) \<Rightarrow> 'f list list \<Rightarrow> real option" where
  \<comment> \<open>\<^verbatim>\<open>sum_lambda\<close> after the loop; \<^verbatim>\<open>range(1, n - 1)\<close> is empty for \<open>n \<le> 2\<close>, also for \<open>n = 0\<close>\<close>
  "scan_sum str_of sequence =
     sum_loop str_of sequence [1 ..< length sequence - 1] (1 + 2)"

definition true_entropy :: "('f \<Rightarrow> string) \<Rightarrow> 'f list list \<Rightarrow> (error + npfloat) option" where
  \<comment> \<open>\<^verbatim>\<open>return 1. / sum_lambda * n * np.log2(n)\<close>, evaluated left to right\<close>
  "true_entropy str_of sequence =
     (case scan_sum str_of sequence of
        None \<Rightarrow> None
      | Some sum_lambda \<Rightarrow>
          Some (if sum_lambda = 0 then Inl ZeroDivisionError
                else Inr (fmul (1 / sum_lambda * real (length sequence))
                               (np_log2 (length sequence)))))"

definition real_entropy_individual ::
  "('f \<Rightarrow> string) \<Rightarrow> ('f \<times> 'f) list \<Rightarrow> (error + npfloat) option" where
  \<comment> \<open>\<^verbatim>\<open>time_series = tuple(map(tuple, traj[[LATITUDE, LONGITUDE]].values))\<close>\<close>
  "real_entropy_individual str_of traj =
     true_entropy str_of (map (\<lambda>(lat, lng). [lat, lng]) traj)"

definition match_lengths :: "('f \<Rightarrow> string) \<Rightarrow> 'f list list \<Rightarrow> nat list option" where
  \<comment> \<open>the values of \<open>j\<close> that the passes of the outer loop add to \<^verbatim>\<open>sum_lambda\<close>, in order\<close>
  "match_lengths str_of sequence =
     those (map (\<lambda>i. match_loop str_of sequence i 1) [1 ..< length sequence - 1])"

subsection \<open>The match length as the specification words it\<close>

text \<open>
  The next three definitions are not in the source. They follow the specification, to be
  compared with the loop above: containment of whole symbols (no text involved), the match
  length of the data model, and the scan of the component design run on symbols.
\<close>

definition spec_match_length :: "'s list \<Rightarrow> nat \<Rightarrow> nat" where
  \<comment> \<open>the minimal \<open>j \<ge> 1\<close> with \<open>sequence[i:i+j]\<close> not a contiguous run of \<open>sequence[0:i]\<close>;
      \<open>(n - i) + 1\<close> if there is no such \<open>j \<le> n - i\<close>\<close>
  "spec_match_length sequence i =
     (case find (\<lambda>j. \<not> sublist (slice sequence i (i + j)) (take i sequence))
                [1 ..< length sequence - i + 1] of
        Some j \<Rightarrow> j
      | None \<Rightarrow> length sequence - i + 1)"

partial_function (option) symbol_match_loop :: "'s list \<Rightarrow> nat \<Rightarrow> nat \<Rightarrow> nat option" where
  "symbol_match_loop sequence i j =
     (if sublist (slice sequence i (i + j)) (take i sequence)
      then (let j' = j + 1
            in if i + j' = length sequence then Some (j' + 1)
               else symbol_match_loop sequence i j')
      else Some j)"

declare symbol_match_loop.simps [code]

definition collision_free :: "('f \<Rightarrow> string) \<Rightarrow> 'f list list \<Rightarrow> bool" where
  \<comment> \<open>on this sequence the text test of the loop agrees with containment of whole symbols\<close>
  "collision_free str_of sequence =
     (\<forall>i \<in> {..< length sequence}. \<forall>j \<in> {.. length sequence}.
        occurs str_of sequence i j = sublist (slice sequence i (i + j)) (take i sequence))"

subsection \<open>Random and uncorrelated entropy\<close>

text \<open>
  A trajectory is the list of its rows; only the location of a row (its latitude and
  longitude) is read, so a row is its location here. pandas \<^verbatim>\<open>groupby\<close> makes one group per
  distinct location, and \<^verbatim>\<open>np.unique(..., axis=0)\<close> keeps one row per distinct location.
\<close>

definition random_entropy_individual :: "'a list \<Rightarrow> npfloat" where
  \<comment> \<open>\<^verbatim>\<open>n_distinct_locs = len(traj.groupby([LATITUDE, LONGITUDE]))\<close>,
      \<^verbatim>\<open>entropy = np.log2(n_distinct_locs)\<close>\<close>
  "random_entropy_individual traj = np_log2 (length (remdups traj))"

definition group_sizes :: "'a list \<Rightarrow> nat list" where
  \<comment> \<open>\<^verbatim>\<open>[len(group) for group in traj.groupby(by=[LATITUDE, LONGITUDE]).groups.values()]\<close>;
      pandas lists the groups by sorted key, the model in the order of \<open>remdups\<close>; the sum
      taken over them does not depend on the order\<close>
  "group_sizes traj = map (count_list traj) (remdups traj)"

definition entr :: "real \<Rightarrow> real" where
  \<comment> \<open>\<^verbatim>\<open>scipy.special.entr\<close>: \<open>- x ln x\<close> for \<open>x > 0\<close> and 0 at 0 (the library's \<^verbatim>\<open>-inf\<close> below 0
      cannot arise from group sizes)\<close>
  "entr x = (if 0 < x then - x * ln x else 0)"

definition stats_entropy :: "real list \<Rightarrow> real \<Rightarrow> real" where
  \<comment> \<open>Modelled from the spec: \<^verbatim>\<open>scipy.stats.entropy(pk, base)\<close> is a library function, not part of
      the source. The spec gives it as the Shannon entropy of the distribution in the given
      base; as the library documents, \<open>pk\<close> is first normalised by its sum and the natural-log
      entropy is divided by \<open>ln base\<close>.\<close>
  "stats_entropy pk base =
     (let total = sum_list pk;
          pk' = map (\<lambda>p. p / total) pk
      in sum_list (map entr pk') / ln base)"

definition uncorrelated_entropy_individual :: "'a list \<Rightarrow> bool \<Rightarrow> real" where
  \<comment> \<open>\<open>normalize_arg\<close> is the source's \<^verbatim>\<open>normalize\<close> parameter. The result is the exact real
      number that the program approximates in doubles; the program's value can differ from
      it in the last bits.\<close>
  "uncorrelated_entropy_individual traj normalize_arg =
     (let n = length traj;
          probs = map (\<lambda>size_of_group. 1.0 * real size_of_group / real n) (group_sizes traj);
          entropy = stats_entropy probs 2.0
      in if normalize_arg
         then (let n_vals = length (remdups traj)
               in if n_vals > 1 then entropy / log 2 (real n_vals) else 0.0)
         else entropy)"

text \<open>The specification's words for the distribution and its entropy.\<close>

definition visit_freq :: "'a list \<Rightarrow> 'a \<Rightarrow> real" where
  \<comment> \<open>empirical visitation frequency of a location\<close>
  "visit_freq traj x = real (count_list traj x) / real (length traj)"

definition shannon :: "'a list \<Rightarrow> real" where
  \<comment> \<open>\<open>- \<Sum> p\<^sub>j log\<^sub>2 p\<^sub>j\<close> over the distinct locations\<close>
  "shannon traj = - (\<Sum>x \<in> set traj. visit_freq traj x * log 2 (visit_freq traj x))"

section \<open>The scan returns\<close>


lemma match_loop_char:
  assumes "i + j < length sequence"
  shows "\<exists>m. match_loop str_of sequence i j = Some m \<and> j \<le> m
           \<and> (\<forall>k. j \<le> k \<and> k < m \<and> k < length sequence - i \<longrightarrow> occurs str_of sequence i k)
           \<and> (m < length sequence - i \<longrightarrow> \<not> occurs str_of sequence i m)
           \<and> (\<not> m < length sequence - i \<longrightarrow> m = length sequence - i + 1)"
  using assms
proof (induction "length sequence - (i + j)" arbitrary: j rule: less_induct)
  case less
  show ?case
  proof (cases "occurs str_of sequence i j")
    case False
    then have "match_loop str_of sequence i j = Some j"
      by (subst match_loop.simps) simp
    with False less.prems show ?thesis by auto
  next
    case True
    show ?thesis
    proof (cases "i + (j + 1) = length sequence")
      case eof: True
      with True have "match_loop str_of sequence i j = Some (length sequence - i + 1)"
        by (subst match_loop.simps) (auto simp: Let_def)
      moreover have "\<forall>k. j \<le> k \<and> k < length sequence - i \<longrightarrow> k = j"
        using eof by auto
      ultimately show ?thesis using True eof by auto
    next
      case go: False
      with less.prems have lt: "i + (j + 1) < length sequence" by simp
      from True go have eq: "match_loop str_of sequence i j = match_loop str_of sequence i (j + 1)"
        by (subst match_loop.simps) (simp add: Let_def)
      from less.hyps[of "j + 1"] lt less.prems
      obtain m where m: "match_loop str_of sequence i (j + 1) = Some m" "j + 1 \<le> m"
        "\<forall>k. j + 1 \<le> k \<and> k < m \<and> k < length sequence - i \<longrightarrow> occurs str_of sequence i k"
        "m < length sequence - i \<longrightarrow> \<not> occurs str_of sequence i m"
        "\<not> m < length sequence - i \<longrightarrow> m = length sequence - i + 1"
        by force
      have "\<forall>k. j \<le> k \<and> k < m \<and> k < length sequence - i \<longrightarrow> occurs str_of sequence i k"
      proof (intro allI impI)
        fix k assume k: "j \<le> k \<and> k < m \<and> k < length sequence - i"
        show "occurs str_of sequence i k"
        proof (cases "k = j")
          case True with \<open>occurs str_of sequence i j\<close> show ?thesis by simp
        next
          case False with k m(3) show ?thesis by auto
        qed
      qed
      with m eq show ?thesis by auto
    qed
  qed
qed

lemma match_loop_returns:
  assumes "i + 1 < length sequence"
  shows "\<exists>m. match_loop str_of sequence i 1 = Some m \<and> 1 \<le> m"
  using match_loop_char[of i 1 sequence str_of] assms by auto

lemma those_match_loop:
  assumes "\<forall>i\<in>set is. i + 1 < length sequence"
  shows "\<exists>ms. those (map (\<lambda>i. match_loop str_of sequence i 1) is) = Some ms
            \<and> length ms = length is \<and> (\<forall>m\<in>set ms. 1 \<le> m)
            \<and> (\<forall>k<length is. match_loop str_of sequence (is ! k) 1 = Some (ms ! k))"
  using assms
proof (induction "is")
  case Nil
  then show ?case by simp
next
  case (Cons i "is")
  then obtain ms where ms: "those (map (\<lambda>i. match_loop str_of sequence i 1) is) = Some ms"
    "length ms = length is" "\<forall>m\<in>set ms. 1 \<le> m"
    "\<forall>k<length is. match_loop str_of sequence (is ! k) 1 = Some (ms ! k)" by auto
  from Cons.prems match_loop_returns[of i sequence str_of]
  obtain m where m: "match_loop str_of sequence i 1 = Some m" "1 \<le> m" by auto
  have "\<forall>k<length (i # is). match_loop str_of sequence ((i # is) ! k) 1 = Some ((m # ms) ! k)"
    using m(1) ms(4) by (auto simp: nth_Cons split: nat.splits)
  with m ms show ?case by (intro exI[of _ "m # ms"]) simp
qed

lemma sum_loop_those:
  "those (map (\<lambda>i. match_loop str_of sequence i 1) is) = Some ms
   \<Longrightarrow> sum_loop str_of sequence is s = Some (s + real (sum_list ms))"
proof (induction "is" arbitrary: s ms)
  case Nil
  then show ?case by simp
next
  case (Cons i "is")
  then show ?case by (auto split: option.splits simp: algebra_simps)
qed

lemma match_lengths_total:
  "\<exists>ms. match_lengths str_of sequence = Some ms \<and> length ms = length sequence - 2
        \<and> (\<forall>m\<in>set ms. 1 \<le> m)
        \<and> (\<forall>k<length sequence - 2. match_loop str_of sequence (k + 1) 1 = Some (ms ! k))"
proof -
  have "\<forall>i\<in>set [1 ..< length sequence - 1]. i + 1 < length sequence" by auto
  from those_match_loop[OF this, of str_of]
  obtain ms where ms: "those (map (\<lambda>i. match_loop str_of sequence i 1) [1 ..< length sequence - 1]) = Some ms"
    "length ms = length [1 ..< length sequence - 1]" "\<forall>m\<in>set ms. 1 \<le> m"
    "\<forall>k<length [1 ..< length sequence - 1]. match_loop str_of sequence ([1 ..< length sequence - 1] ! k) 1 = Some (ms ! k)"
    by blast
  have "\<forall>k<length sequence - 2. match_loop str_of sequence (k + 1) 1 = Some (ms ! k)"
  proof (intro allI impI)
    fix k assume "k < length sequence - 2"
    then have "k < length [1 ..< length sequence - 1]" "[1 ..< length sequence - 1] ! k = k + 1"
      by auto
    with ms(4) show "match_loop str_of sequence (k + 1) 1 = Some (ms ! k)" by metis
  qed
  with ms show ?thesis by (auto simp: match_lengths_def)
qed

lemma scan_sum_match_lengths:
  "match_lengths str_of sequence = Some ms \<Longrightarrow> scan_sum str_of sequence = Some (3 + real (sum_list ms))"
  unfolding match_lengths_def scan_sum_def by (drule sum_loop_those[where s = "1 + 2"]) simp

lemma sum_list_ge_length:
  "\<forall>m\<in>set ms. 1 \<le> m \<Longrightarrow> length ms \<le> sum_list (ms :: nat list)"
  by (induction ms) auto

section \<open>Claims about the real-entropy scan\<close>

text \<open>
  C1. The claim gives the match length at an interior position \<open>i\<close> as the least \<open>j \<ge> 1\<close>
  whose candidate \<open>sequence[i:i+j]\<close> is not a contiguous run of the prefix, with the
  sentinel \<open>(n - i) + 1\<close> only when no \<open>j \<le> n - i\<close> qualifies. The loop leaves through its
  end-of-sequence branch as soon as \<open>i + j\<close> reaches \<open>n\<close>, before the candidate of length
  \<open>n - i\<close> is ever tested. On \<open>[(1.0, 1.0), (1.0, 1.0), (2.0, 2.0)]\<close> at \<open>i = 1\<close> the loop
  records 3, while the least length that is not in the prefix is 2.
\<close>

theorem match_length_counterexample:
  "match_loop str_whole [[1, 1], [1, 1], [2, 2]] 1 1 = Some 3
   \<and> spec_match_length [[1, 1], [1, 1], [2, 2 :: int]] 1 = 2"
  by code_simp

text \<open>
  C1, as the loop computes it: for a sequence of length \<open>n \<ge> 3\<close> whose encoding has no
  collision and an interior position \<open>i\<close>, the loop returns some \<open>m \<ge> 1\<close>; every candidate
  of a length below \<open>m\<close> and below \<open>n - i\<close> is a contiguous run of the prefix; if \<open>m < n - i\<close>
  the candidate of length \<open>m\<close> is not; otherwise \<open>m\<close> is the sentinel \<open>(n - i) + 1\<close>. So the
  minimum ranges over \<open>1 \<le> j \<le> n - i - 1\<close> only.
\<close>

theorem match_length_eof:
  assumes "3 \<le> length sequence" and "1 \<le> i" and "i \<le> length sequence - 2"
    and "collision_free str_of sequence"
  shows "\<exists>m. match_loop str_of sequence i 1 = Some m \<and> 1 \<le> m
           \<and> (\<forall>k. 1 \<le> k \<and> k < m \<and> k < length sequence - i
                  \<longrightarrow> sublist (slice sequence i (i + k)) (take i sequence))
           \<and> (m < length sequence - i \<longrightarrow> \<not> sublist (slice sequence i (i + m)) (take i sequence))
           \<and> (\<not> m < length sequence - i \<longrightarrow> m = length sequence - i + 1)"
proof -
  from assms have lt: "i + 1 < length sequence" by linarith
  from match_loop_char[OF lt, of str_of]
  obtain m where m: "match_loop str_of sequence i 1 = Some m" "1 \<le> m"
    "\<forall>k. 1 \<le> k \<and> k < m \<and> k < length sequence - i \<longrightarrow> occurs str_of sequence i k"
    "m < length sequence - i \<longrightarrow> \<not> occurs str_of sequence i m"
    "\<not> m < length sequence - i \<longrightarrow> m = length sequence - i + 1"
    by blast
  have agree: "occurs str_of sequence i k = sublist (slice sequence i (i + k)) (take i sequence)"
    if "k < length sequence - i" for k
  proof -
    from lt have "i \<in> {..< length sequence}" by simp
    moreover from that have "k \<in> {.. length sequence}" by simp
    ultimately show ?thesis
      using assms(4) unfolding collision_free_def by blast
  qed
  from m(3) agree
  have a: "\<forall>k. 1 \<le> k \<and> k < m \<and> k < length sequence - i
             \<longrightarrow> sublist (slice sequence i (i + k)) (take i sequence)" by blast
  from m(4) agree
  have b: "m < length sequence - i \<longrightarrow> \<not> sublist (slice sequence i (i + m)) (take i sequence)"
    by blast
  from m(1,2,5) a b show ?thesis by blast
qed

theorem match_length_eof_witness:
  "3 \<le> length [[1, 1], [1, 1], [2, 2 :: int]] \<and> (1 :: nat) \<le> 1
   \<and> 1 \<le> length [[1, 1], [1, 1], [2, 2 :: int]] - 2
   \<and> collision_free str_whole [[1, 1], [1, 1], [2, 2]]
   \<and> (\<exists>m. match_loop str_whole [[1, 1], [1, 1], [2, 2]] 1 1 = Some m \<and> 1 \<le> m
           \<and> (\<forall>k. 1 \<le> k \<and> k < m \<and> k < length [[1, 1], [1, 1], [2, 2 :: int]] - 1
                  \<longrightarrow> sublist (slice [[1, 1], [1, 1], [2, 2 :: int]] 1 (1 + k)) (take 1 [[1, 1], [1, 1], [2, 2]]))
           \<and> (m < length [[1, 1], [1, 1], [2, 2 :: int]] - 1
                  \<longrightarrow> \<not> sublist (slice [[1, 1], [1, 1], [2, 2 :: int]] 1 (1 + m)) (take 1 [[1, 1], [1, 1], [2, 2]]))
           \<and> (\<not> m < length [[1, 1], [1, 1], [2, 2 :: int]] - 1
                  \<longrightarrow> m = length [[1, 1], [1, 1], [2, 2 :: int]] - 1 + 1))"
proof -
  have h1: "3 \<le> length [[1, 1], [1, 1], [2, 2 :: int]]" by simp
  have h2: "(1 :: nat) \<le> 1" by simp
  have h3: "1 \<le> length [[1, 1], [1, 1], [2, 2 :: int]] - 2" by simp
  have h4: "collision_free str_whole [[1, 1], [1, 1], [2, 2]]"
    by (simp add: collision_free_def occurs_def stringify_def slice_def str_whole_def str_int_def
        str_nat.simps lessThan_Suc atMost_Suc numeral_3_eq_3 sublist_code prefix_code)
  show ?thesis
    by (rule conjI[OF h1 conjI[OF h2 conjI[OF h3 conjI[OF h4 match_length_eof[OF h1 h2 h3 h4]]]]])
qed

text \<open>
  C2. The claim says the text test of the loop is a test on whole symbols. It is not:
  the encoding puts no delimiter before the first or after the last symbol, so the text of
  a symbol can sit inside the text of another one. For the visits
  \<open>[(11.0, 2.0), (1.0, 2.0), (0.0, 0.0)]\<close> at \<open>i = 1\<close> the prefix is \<^verbatim>\<open>11.0_2.0\<close> and the
  candidate is \<^verbatim>\<open>1.0_2.0\<close>: the text test succeeds although the symbol \<open>(1.0, 2.0)\<close> is not in
  the prefix, and the loop records 3 where the scan on symbols records 1.
\<close>

theorem stringify_collision:
  "occurs str_whole [[11, 2], [1, 2], [0, 0]] 1 1
   \<and> \<not> sublist (slice [[11, 2], [1, 2], [0, 0 :: int]] 1 (1 + 1)) (take 1 [[11, 2], [1, 2], [0, 0]])
   \<and> stringify str_whole (take 1 [[11, 2], [1, 2], [0, 0]]) = ''11.0_2.0''
   \<and> stringify str_whole (slice [[11, 2], [1, 2], [0, 0]] 1 (1 + 1)) = ''1.0_2.0''
   \<and> match_loop str_whole [[11, 2], [1, 2], [0, 0]] 1 1 = Some 3
   \<and> symbol_match_loop [[11, 2], [1, 2], [0, 0 :: int]] 1 1 = Some 1"
  by code_simp

text \<open>
  C3. For a sequence of length \<open>n \<ge> 1\<close> the loop returns for every interior position, the
  recorded lengths form a list with one entry for each of the positions \<open>1, \<dots>, n - 2\<close>, and
  the estimator returns \<open>n log\<^sub>2 n\<close> divided by 3 plus the sum of that list.
\<close>

theorem true_entropy_value:
  assumes "1 \<le> length sequence"
  shows "\<exists>ms. match_lengths str_of sequence = Some ms
            \<and> length ms = length sequence - 2
            \<and> (\<forall>k<length sequence - 2. match_loop str_of sequence (k + 1) 1 = Some (ms ! k))
            \<and> true_entropy str_of sequence =
                Some (Inr (Finite (real (length sequence) * log 2 (real (length sequence))
                                   / (3 + real (sum_list ms)))))"
proof -
  from match_lengths_total[of str_of sequence]
  obtain ms where ms: "match_lengths str_of sequence = Some ms" "length ms = length sequence - 2"
    "\<forall>k<length sequence - 2. match_loop str_of sequence (k + 1) 1 = Some (ms ! k)"
    by blast
  have pos: "3 + real (sum_list ms) \<noteq> 0"
    by (metis add_pos_nonneg less_numeral_extra(3) of_nat_0_le_iff zero_less_numeral)
  from assms have ne: "length sequence \<noteq> 0" by linarith
  from scan_sum_match_lengths[OF ms(1)] pos ne
  have "true_entropy str_of sequence =
          Some (Inr (Finite (real (length sequence) * log 2 (real (length sequence))
                             / (3 + real (sum_list ms)))))"
    by (simp add: true_entropy_def np_log2_def)
  with ms show ?thesis by blast
qed

theorem true_entropy_value_witness:
  "1 \<le> length [[1, 1], [1, 1], [2, 2 :: int]]
   \<and> (\<exists>ms. match_lengths str_whole [[1, 1], [1, 1], [2, 2 :: int]] = Some ms
          \<and> length ms = length [[1, 1], [1, 1], [2, 2 :: int]] - 2
          \<and> (\<forall>k<length [[1, 1], [1, 1], [2, 2 :: int]] - 2. match_loop str_whole [[1, 1], [1, 1], [2, 2 :: int]] (k + 1) 1 = Some (ms ! k))
          \<and> true_entropy str_whole [[1, 1], [1, 1], [2, 2 :: int]] =
              Some (Inr (Finite (real (length [[1, 1], [1, 1], [2, 2 :: int]]) * log 2 (real (length [[1, 1], [1, 1], [2, 2 :: int]]))
                                 / (3 + real (sum_list ms))))))"
proof -
  have h: "1 \<le> length [[1, 1], [1, 1], [2, 2 :: int]]" by simp
  show ?thesis by (rule conjI[OF h true_entropy_value[OF h]])
qed

text \<open>
  C4. The claim says that every entry point rejects a sequence of length 0 with an
  EmptyInputError. No function of the source raises anything; on the empty sequence the
  real-entropy function computes \<^verbatim>\<open>1. / 3. * 0 * np.log2(0)\<close>, which is \<^verbatim>\<open>0.0 * -inf\<close>, and
  returns NaN.
\<close>

theorem empty_input_counterexample:
  "true_entropy str_whole [] = Some (Inr NaN)
   \<and> true_entropy str_whole [] \<noteq> Some (Inl EmptyInputError)"
  by (simp add: true_entropy_def scan_sum_def np_log2_def)

text \<open>
  C4, as the code behaves: on a sequence of length 0 the real-entropy function returns NaN
  and the random-entropy function returns \<^verbatim>\<open>-inf\<close>; neither raises.
\<close>

theorem empty_input_values:
  "true_entropy str_of [] = Some (Inr NaN) \<and> random_entropy_individual [] = NegInf"
  by (simp add: true_entropy_def scan_sum_def np_log2_def random_entropy_individual_def)

text \<open>
  C5. A sequence of length 1 has real entropy 0 and random entropy 0; a sequence of length 2
  has real entropy \<open>2/3\<close>, whatever its symbols are.
\<close>

theorem short_sequences:
  "(length sequence = 1 \<longrightarrow> true_entropy str_of sequence = Some (Inr (Finite 0)))
   \<and> (length traj = 1 \<longrightarrow> random_entropy_individual traj = Finite 0)
   \<and> (length sequence = 2 \<longrightarrow> true_entropy str_of sequence = Some (Inr (Finite (2 / 3))))"
proof (intro conjI impI)
  assume "length sequence = 1"
  then show "true_entropy str_of sequence = Some (Inr (Finite 0))"
    by (simp add: true_entropy_def scan_sum_def np_log2_def)
next
  assume "length traj = 1"
  then obtain x where "traj = [x]" by (cases traj) auto
  then show "random_entropy_individual traj = Finite 0"
    by (simp add: random_entropy_individual_def np_log2_def)
next
  assume "length sequence = 2"
  then show "true_entropy str_of sequence = Some (Inr (Finite (2 / 3)))"
    by (simp add: true_entropy_def scan_sum_def np_log2_def)
qed

theorem short_sequences_witness:
  "length [[7, 8 :: int]] = 1
   \<and> true_entropy str_whole [[7, 8]] = Some (Inr (Finite 0))
   \<and> length [7 :: int] = 1
   \<and> random_entropy_individual [7 :: int] = Finite 0
   \<and> length [[1, 2], [3, 4 :: int]] = 2
   \<and> true_entropy str_whole [[1, 2], [3, 4]] = Some (Inr (Finite (2 / 3)))"
proof -
  have h1: "length [[7, 8 :: int]] = 1" by simp
  have h2: "length [7 :: int] = 1" by simp
  have h3: "length [[1, 2], [3, 4 :: int]] = 2" by simp
  note one = short_sequences[of "[[7, 8]]" str_whole "[7 :: int]"]
  note two = short_sequences[of "[[1, 2], [3, 4]]" str_whole "[7 :: int]"]
  from one h1 have a: "true_entropy str_whole [[7, 8]] = Some (Inr (Finite 0))" by blast
  from one h2 have b: "random_entropy_individual [7 :: int] = Finite 0" by blast
  from two h3 have c: "true_entropy str_whole [[1, 2], [3, 4]] = Some (Inr (Finite (2 / 3)))"
    by blast
  show ?thesis by (intro conjI; fact)
qed

text \<open>
  C6. For a sequence of length \<open>n \<ge> 1\<close> every recorded match length is at least 1, the sum
  of contributions is 3 plus their sum, it is at least 3 and at least \<open>n\<close>, and the
  estimator returns without a division by zero.
\<close>

theorem sum_lambda_bounds:
  assumes "1 \<le> length sequence"
  shows "\<exists>ms s. match_lengths str_of sequence = Some ms \<and> (\<forall>m\<in>set ms. 1 \<le> m)
            \<and> scan_sum str_of sequence = Some s \<and> s = 3 + real (sum_list ms)
            \<and> 3 \<le> s \<and> real (length sequence) \<le> s
            \<and> true_entropy str_of sequence \<noteq> None
            \<and> true_entropy str_of sequence \<noteq> Some (Inl ZeroDivisionError)"
proof -
  from match_lengths_total[of str_of sequence]
  obtain ms where ms: "match_lengths str_of sequence = Some ms" "length ms = length sequence - 2"
    "\<forall>m\<in>set ms. 1 \<le> m"
    by blast
  let ?s = "3 + real (sum_list ms)"
  have s: "scan_sum str_of sequence = Some ?s" by (rule scan_sum_match_lengths[OF ms(1)])
  have "length sequence - 2 \<le> sum_list ms" using sum_list_ge_length[OF ms(3)] ms(2) by simp
  then have n: "real (length sequence) \<le> ?s" by linarith
  have three: "3 \<le> ?s" by simp
  then have "?s \<noteq> 0" by linarith
  with s have "true_entropy str_of sequence \<noteq> None"
     "true_entropy str_of sequence \<noteq> Some (Inl ZeroDivisionError)"
    by (simp_all add: true_entropy_def)
  with ms s n three show ?thesis by blast
qed

theorem sum_lambda_bounds_witness:
  "1 \<le> length [[3, 4], [5, 6], [3, 4], [5, 6 :: int]]
   \<and> (\<exists>ms s. match_lengths str_whole [[3, 4], [5, 6], [3, 4], [5, 6 :: int]] = Some ms \<and> (\<forall>m\<in>set ms. 1 \<le> m)
          \<and> scan_sum str_whole [[3, 4], [5, 6], [3, 4], [5, 6 :: int]] = Some s \<and> s = 3 + real (sum_list ms)
          \<and> 3 \<le> s \<and> real (length [[3, 4], [5, 6], [3, 4], [5, 6 :: int]]) \<le> s
          \<and> true_entropy str_whole [[3, 4], [5, 6], [3, 4], [5, 6 :: int]] \<noteq> None
          \<and> true_entropy str_whole [[3, 4], [5, 6], [3, 4], [5, 6 :: int]] \<noteq> Some (Inl ZeroDivisionError))"
proof -
  have h: "1 \<le> length [[3, 4], [5, 6], [3, 4], [5, 6 :: int]]" by simp
  show ?thesis by (rule conjI[OF h sum_lambda_bounds[OF h]])
qed

section \<open>Two sequences of length six\<close>

lemma stringify_simps:
  "stringify str_of [] = []"
  "stringify str_of [r] = join ''_'' (map str_of r)"
  "stringify str_of (r # r' # rs) = join ''_'' (map str_of r) @ ''|'' @ stringify str_of (r' # rs)"
  by (simp_all add: stringify_def)

lemma sublist_witness: "ys = ps @ xs @ ss \<Longrightarrow> sublist xs ys"
  by (auto simp: sublist_def)

lemma not_sublist_longer: "length ys < length xs \<Longrightarrow> \<not> sublist xs ys"
  using sublist_length_le[of xs ys] by auto

lemma match_loop_stop:
  "\<not> occurs str_of sequence i j \<Longrightarrow> match_loop str_of sequence i j = Some j"
  by (subst match_loop.simps) simp

lemma match_loop_eof:
  "occurs str_of sequence i j \<Longrightarrow> i + j + 1 = length sequence \<Longrightarrow> m = j + 2
   \<Longrightarrow> match_loop str_of sequence i j = Some m"
  by (subst match_loop.simps) (simp add: Let_def)

lemma match_loop_step:
  "occurs str_of sequence i j \<Longrightarrow> i + j + 1 \<noteq> length sequence \<Longrightarrow> j' = j + 1
   \<Longrightarrow> match_loop str_of sequence i j = match_loop str_of sequence i j'"
  by (subst match_loop.simps) (simp add: Let_def)

lemma alternating_lengths:
  assumes "\<not> sublist (stringify str_of [B]) (stringify str_of [A])"
  shows "match_lengths str_of [A, B, A, B, A, B] = Some [1, 3, 4, 3]"
proof -
  let ?S = "[A, B, A, B, A, B]"
  let ?a = "join ''_'' (map str_of A)" and ?b = "join ''_'' (map str_of B)"
  have n11: "\<not> occurs str_of ?S 1 1"
    using assms by (simp add: occurs_def slice_def stringify_simps)
  have o21: "occurs str_of ?S 2 1"
    by (simp add: occurs_def slice_def stringify_simps)
  have o22: "occurs str_of ?S 2 2"
    by (simp add: occurs_def slice_def stringify_simps)
  have n23: "\<not> occurs str_of ?S 2 3"
    unfolding occurs_def by (rule not_sublist_longer) (simp add: slice_def stringify_simps)
  have o31: "occurs str_of ?S 3 1"
    unfolding occurs_def
    by (rule sublist_witness[where ps = "?a @ ''|''" and ss = "''|'' @ ?a"])
       (simp add: slice_def stringify_simps)
  have o32: "occurs str_of ?S 3 2"
    unfolding occurs_def
    by (rule sublist_witness[where ps = "?a @ ''|''" and ss = "[]"])
       (simp add: slice_def stringify_simps)
  have o41: "occurs str_of ?S 4 1"
    by (simp add: occurs_def slice_def stringify_simps)
  have m1: "match_loop str_of ?S 1 1 = Some 1"
    by (rule match_loop_stop[OF n11])
  have "match_loop str_of ?S 2 1 = match_loop str_of ?S 2 2"
    by (rule match_loop_step[OF o21]) simp_all
  also have "\<dots> = match_loop str_of ?S 2 3"
    by (rule match_loop_step[OF o22]) simp_all
  also have "\<dots> = Some 3"
    by (rule match_loop_stop[OF n23])
  finally have m2: "match_loop str_of ?S 2 1 = Some 3" .
  have "match_loop str_of ?S 3 1 = match_loop str_of ?S 3 2"
    by (rule match_loop_step[OF o31]) simp_all
  also have "\<dots> = Some 4"
    by (rule match_loop_eof[OF o32]) simp_all
  finally have m3: "match_loop str_of ?S 3 1 = Some 4" .
  have m4: "match_loop str_of ?S 4 1 = Some 3"
    by (rule match_loop_eof[OF o41]) simp_all
  have idx: "[1 ..< length ?S - 1] = [1, 2, 3, 4]" by (simp add: upt_rec)
  show ?thesis
    unfolding match_lengths_def idx list.map m1 m2 m3 m4 by simp
qed

lemma distinct_lengths:
  assumes "\<not> sublist (stringify str_of [B]) (stringify str_of [A])"
    and "\<not> sublist (stringify str_of [C]) (stringify str_of [A, B])"
    and "\<not> sublist (stringify str_of [D]) (stringify str_of [A, B, C])"
    and "\<not> sublist (stringify str_of [E]) (stringify str_of [A, B, C, D])"
  shows "match_lengths str_of [A, B, C, D, E, F] = Some [1, 1, 1, 1]"
proof -
  let ?S = "[A, B, C, D, E, F]"
  have n1: "\<not> occurs str_of ?S 1 1"
    using assms(1) by (simp add: occurs_def slice_def)
  have n2: "\<not> occurs str_of ?S 2 1"
    using assms(2) by (simp add: occurs_def slice_def)
  have n3: "\<not> occurs str_of ?S 3 1"
    using assms(3) by (simp add: occurs_def slice_def)
  have n4: "\<not> occurs str_of ?S 4 1"
    using assms(4) by (simp add: occurs_def slice_def)
  have idx: "[1 ..< length ?S - 1] = [1, 2, 3, 4]" by (simp add: upt_rec)
  show ?thesis
    unfolding match_lengths_def idx list.map match_loop_stop[OF n1] match_loop_stop[OF n2]
      match_loop_stop[OF n3] match_loop_stop[OF n4] by simp
qed

lemma true_entropy_of_lengths:
  assumes "match_lengths str_of sequence = Some ms" and "sequence \<noteq> []"
  shows "true_entropy str_of sequence =
           Some (Inr (Finite (real (length sequence) * log 2 (real (length sequence))
                              / (3 + real (sum_list ms)))))"
proof -
  have pos: "3 + real (sum_list ms) \<noteq> 0"
    by (metis add_pos_nonneg less_numeral_extra(3) of_nat_0_le_iff zero_less_numeral)
  from scan_sum_match_lengths[OF assms(1)] pos assms(2) show ?thesis
    by (simp add: true_entropy_def np_log2_def)
qed

text \<open>
  C7. The claim expects every interior match length of \<open>[A, B, A, B, A, B]\<close> to be at most 2
  and those of \<open>[A, B, C, D, E, F]\<close> to be close to \<open>n - i\<close>. The scan does the opposite:
  a repeated pattern is found again in the prefix, so the candidate grows. For
  \<open>A = (1.0, 1.0)\<close>, \<open>B = (2.0, 2.0)\<close> the recorded lengths are 1, 3, 4, 3, and for six
  different symbols they are 1, 1, 1, 1.
\<close>

theorem repetitive_counterexample:
  "match_lengths str_whole [[1, 1], [2, 2], [1, 1], [2, 2], [1, 1], [2, 2]] = Some [1, 3, 4, 3]
   \<and> match_lengths str_whole [[1, 1], [2, 2], [3, 3], [4, 4], [5, 5], [6, 6]] = Some [1, 1, 1, 1]"
  by code_simp

text \<open>
  C7, as the scan computes it: if the text of \<open>B\<close> does not occur in the text of \<open>A\<close>, the
  interior match lengths of \<open>[A, B, A, B, A, B]\<close> are 1, 3, 4, 3 (sum of contributions 14);
  if moreover the text of each of \<open>C\<close>, \<open>D\<close>, \<open>E\<close> does not occur in the text of the
  symbols before it, those of \<open>[A, B, C, D, E, F]\<close> are all 1 (sum of contributions 7). The
  real entropy \<open>6 log\<^sub>2 6 / 14\<close> of the first is strictly below \<open>6 log\<^sub>2 6 / 7\<close> of the second.
\<close>

theorem repetitive_below_distinct:
  assumes "\<not> sublist (stringify str_of [B]) (stringify str_of [A])"
    and "\<not> sublist (stringify str_of [C]) (stringify str_of [A, B])"
    and "\<not> sublist (stringify str_of [D]) (stringify str_of [A, B, C])"
    and "\<not> sublist (stringify str_of [E]) (stringify str_of [A, B, C, D])"
  shows "match_lengths str_of [A, B, A, B, A, B] = Some [1, 3, 4, 3]
       \<and> match_lengths str_of [A, B, C, D, E, F] = Some [1, 1, 1, 1]
       \<and> true_entropy str_of [A, B, A, B, A, B] = Some (Inr (Finite (6 * log 2 6 / 14)))
       \<and> true_entropy str_of [A, B, C, D, E, F] = Some (Inr (Finite (6 * log 2 6 / 7)))
       \<and> (6 * log 2 6 / 14 :: real) < 6 * log 2 6 / 7"
proof -
  note a = alternating_lengths[OF assms(1)]
  note d = distinct_lengths[OF assms]
  have ea: "true_entropy str_of [A, B, A, B, A, B] = Some (Inr (Finite (6 * log 2 6 / 14)))"
    using true_entropy_of_lengths[OF a] by simp
  have ed: "true_entropy str_of [A, B, C, D, E, F] = Some (Inr (Finite (6 * log 2 6 / 7)))"
    using true_entropy_of_lengths[OF d] by simp
  have "(0 :: real) < log 2 6" by simp
  then have "(6 * log 2 6 / 14 :: real) < 6 * log 2 6 / 7" by simp
  with a d ea ed show ?thesis by blast
qed

theorem repetitive_below_distinct_witness:
  "\<not> sublist (stringify str_whole [[2, 2]]) (stringify str_whole [[1, 1]])
   \<and> \<not> sublist (stringify str_whole [[3, 3]]) (stringify str_whole [[1, 1], [2, 2]])
   \<and> \<not> sublist (stringify str_whole [[4, 4]]) (stringify str_whole [[1, 1], [2, 2], [3, 3]])
   \<and> \<not> sublist (stringify str_whole [[5, 5]])
         (stringify str_whole [[1, 1], [2, 2], [3, 3], [4, 4]])
   \<and> (match_lengths str_whole [[1, 1], [2, 2], [1, 1], [2, 2], [1, 1], [2, 2]] = Some [1, 3, 4, 3]
       \<and> match_lengths str_whole [[1, 1], [2, 2], [3, 3], [4, 4], [5, 5], [6, 6]]
            = Some [1, 1, 1, 1]
       \<and> true_entropy str_whole [[1, 1], [2, 2], [1, 1], [2, 2], [1, 1], [2, 2]]
            = Some (Inr (Finite (6 * log 2 6 / 14)))
       \<and> true_entropy str_whole [[1, 1], [2, 2], [3, 3], [4, 4], [5, 5], [6, 6]]
            = Some (Inr (Finite (6 * log 2 6 / 7)))
       \<and> (6 * log 2 6 / 14 :: real) < 6 * log 2 6 / 7)"
proof -
  have h1: "\<not> sublist (stringify str_whole [[2, 2]]) (stringify str_whole [[1, 1]])"
    by code_simp
  have h2: "\<not> sublist (stringify str_whole [[3, 3]]) (stringify str_whole [[1, 1], [2, 2]])"
    by code_simp
  have h3: "\<not> sublist (stringify str_whole [[4, 4]])
              (stringify str_whole [[1, 1], [2, 2], [3, 3]])"
    by code_simp
  have h4: "\<not> sublist (stringify str_whole [[5, 5]])
              (stringify str_whole [[1, 1], [2, 2], [3, 3], [4, 4]])"
    by code_simp
  show ?thesis
    by (rule conjI[OF h1 conjI[OF h2 conjI[OF h3 conjI[OF h4
          repetitive_below_distinct[OF h1 h2 h3 h4, of "[6, 6]"]]]]])
qed

section \<open>Claims about the uncorrelated and random entropy\<close>

lemma visit_freq_pos: "x \<in> set traj \<Longrightarrow> 0 < visit_freq traj x"
proof -
  assume x: "x \<in> set traj"
  then have "0 < count_list traj x" by (simp add: count_list_0_iff Suc_le_eq flip: neq0_conv)
  moreover from x have "0 < length traj" by (cases traj) auto
  ultimately show ?thesis by (simp add: visit_freq_def)
qed

lemma visit_freq_sum: "traj \<noteq> [] \<Longrightarrow> (\<Sum>x \<in> set traj. visit_freq traj x) = 1"
proof -
  assume ne: "traj \<noteq> []"
  have "(\<Sum>x \<in> set traj. visit_freq traj x)
          = real (\<Sum>x \<in> set traj. count_list traj x) / real (length traj)"
    by (simp add: visit_freq_def sum_divide_distrib)
  also have "(\<Sum>x \<in> set traj. count_list traj x) = length traj"
    by (rule sum_count_set) simp_all
  finally show ?thesis using ne by simp
qed

lemma probs_are_freqs:
  "map (\<lambda>size_of_group. 1.0 * real size_of_group / real (length traj)) (group_sizes traj)
     = map (visit_freq traj) (remdups traj)"
  by (simp add: group_sizes_def visit_freq_def)

lemma sum_list_remdups: "sum_list (map f (remdups traj)) = (\<Sum>x \<in> set traj. f x)"
  using sum_list_distinct_conv_sum_set[of "remdups traj" f] by simp

lemma stats_entropy_freqs:
  assumes "traj \<noteq> []"
  shows "stats_entropy (map (visit_freq traj) (remdups traj)) 2 = shannon traj"
proof -
  have total: "sum_list (map (visit_freq traj) (remdups traj)) = 1"
    using visit_freq_sum[OF assms] by (simp add: sum_list_remdups)
  have "sum_list (map entr (map (visit_freq traj) (remdups traj)))
          = (\<Sum>x \<in> set traj. entr (visit_freq traj x))"
    using sum_list_remdups[of "\<lambda>x. entr (visit_freq traj x)" traj] by (simp add: comp_def)
  also have "\<dots> = (\<Sum>x \<in> set traj. - visit_freq traj x * ln (visit_freq traj x))"
    by (rule sum.cong) (simp_all add: entr_def visit_freq_pos)
  finally have e: "sum_list (map entr (map (visit_freq traj) (remdups traj)))
          = (\<Sum>x \<in> set traj. - visit_freq traj x * ln (visit_freq traj x))" .
  have "stats_entropy (map (visit_freq traj) (remdups traj)) 2
          = (\<Sum>x \<in> set traj. - visit_freq traj x * ln (visit_freq traj x)) / ln 2"
    unfolding stats_entropy_def Let_def total using e by simp
  also have "\<dots> = (\<Sum>x \<in> set traj. - visit_freq traj x * ln (visit_freq traj x) / ln 2)"
    by (simp add: sum_divide_distrib)
  also have "\<dots> = shannon traj"
    by (simp add: shannon_def log_def sum_negf)
  finally show ?thesis .
qed

lemma uncorrelated_shannon:
  assumes "traj \<noteq> []"
  shows "uncorrelated_entropy_individual traj False = shannon traj"
    and "uncorrelated_entropy_individual traj True =
           (if 1 < card (set traj) then shannon traj / log 2 (real (card (set traj))) else 0)"
  unfolding uncorrelated_entropy_individual_def Let_def probs_are_freqs
  using stats_entropy_freqs[OF assms]
  by (simp_all add: length_remdups_card_conv)

text \<open>
  C8. On a non-empty trajectory the uncorrelated entropy is the Shannon entropy
  \<open>- \<Sum> p log\<^sub>2 p\<close> of the visitation frequencies; with normalisation requested it is that
  value divided by \<open>log\<^sub>2 N\<close> when the number \<open>N\<close> of distinct locations exceeds 1, and 0
  otherwise.
\<close>

theorem uncorrelated_is_shannon:
  assumes "traj \<noteq> []"
  shows "uncorrelated_entropy_individual traj False
           = - (\<Sum>x \<in> set traj. visit_freq traj x * log 2 (visit_freq traj x))
       \<and> uncorrelated_entropy_individual traj True
           = (if 1 < card (set traj)
              then - (\<Sum>x \<in> set traj. visit_freq traj x * log 2 (visit_freq traj x))
                     / log 2 (real (card (set traj)))
              else 0)"
  using uncorrelated_shannon[OF assms] by (simp add: shannon_def)

theorem uncorrelated_is_shannon_witness:
  "([1, 2, 1] :: int list) \<noteq> []
   \<and> (uncorrelated_entropy_individual ([1, 2, 1] :: int list) False
           = - (\<Sum>x \<in> set ([1, 2, 1] :: int list). visit_freq ([1, 2, 1] :: int list) x * log 2 (visit_freq ([1, 2, 1] :: int list) x))
       \<and> uncorrelated_entropy_individual ([1, 2, 1] :: int list) True
           = (if 1 < card (set ([1, 2, 1] :: int list))
              then - (\<Sum>x \<in> set ([1, 2, 1] :: int list). visit_freq ([1, 2, 1] :: int list) x * log 2 (visit_freq ([1, 2, 1] :: int list) x))
                     / log 2 (real (card (set ([1, 2, 1] :: int list))))
              else 0))"
proof -
  have h: "([1, 2, 1] :: int list) \<noteq> []" by simp
  show ?thesis by (rule conjI[OF h uncorrelated_is_shannon[OF h]])
qed

lemma shannon_nonneg: "traj \<noteq> [] \<Longrightarrow> 0 \<le> shannon traj"
proof -
  assume ne: "traj \<noteq> []"
  have "(\<Sum>x \<in> set traj. visit_freq traj x * log 2 (visit_freq traj x)) \<le> 0"
  proof (rule sum_nonpos)
    fix x assume x: "x \<in> set traj"
    have "count_list traj x \<le> length traj" by (rule count_le_length)
    with ne have "visit_freq traj x \<le> 1" by (simp add: visit_freq_def)
    with visit_freq_pos[OF x] have "log 2 (visit_freq traj x) \<le> 0" by simp
    with visit_freq_pos[OF x] show "visit_freq traj x * log 2 (visit_freq traj x) \<le> 0"
      by (simp add: mult_nonneg_nonpos)
  qed
  then show ?thesis by (simp add: shannon_def)
qed

lemma shannon_le_log_card:
  assumes "traj \<noteq> []"
  shows "shannon traj \<le> log 2 (real (card (set traj)))"
proof -
  let ?S = "set traj" and ?p = "visit_freq traj"
  let ?N = "real (card ?S)"
  have Npos: "0 < ?N" using assms by (simp add: card_gt_0_iff)
  have step: "?p x * ln (1 / (?N * ?p x)) \<le> 1 / ?N - ?p x" if "x \<in> ?S" for x
  proof -
    from that have p: "0 < ?p x" by (rule visit_freq_pos)
    with Npos have "0 < 1 / (?N * ?p x)" by simp
    from ln_le_minus_one[OF this] have "ln (1 / (?N * ?p x)) \<le> 1 / (?N * ?p x) - 1" .
    with p have "?p x * ln (1 / (?N * ?p x)) \<le> ?p x * (1 / (?N * ?p x) - 1)"
      by (simp add: mult_left_mono)
    also from p have "\<dots> = 1 / ?N - ?p x" by (simp add: field_simps)
    finally show ?thesis .
  qed
  have split: "?p x * ln (1 / (?N * ?p x)) = - (?p x * ln (?p x)) - ?p x * ln ?N"
    if "x \<in> ?S" for x
  proof -
    from that have p: "0 < ?p x" by (rule visit_freq_pos)
    with Npos assms have "ln (1 / (?N * ?p x)) = - ln ?N - ln (?p x)"
      by (simp add: ln_div ln_mult)
    then have "?p x * ln (1 / (?N * ?p x)) = ?p x * (- ln ?N - ln (?p x))"
      by (rule arg_cong)
    also have "\<dots> = - (?p x * ln (?p x)) - ?p x * ln ?N"
      by (simp add: algebra_simps)
    finally show ?thesis .
  qed
  have "(\<Sum>x \<in> ?S. ?p x * ln (1 / (?N * ?p x))) \<le> (\<Sum>x \<in> ?S. 1 / ?N - ?p x)"
    by (rule sum_mono) (rule step)
  also have "\<dots> = 0"
    using visit_freq_sum[OF assms] Npos assms by (simp add: sum_subtractf)
  finally have "(\<Sum>x \<in> ?S. - (?p x * ln (?p x)) - ?p x * ln ?N) \<le> 0"
    using split by simp
  then have "(\<Sum>x \<in> ?S. - (?p x * ln (?p x))) - (\<Sum>x \<in> ?S. ?p x) * ln ?N \<le> 0"
    by (simp add: sum_subtractf sum_distrib_right)
  with visit_freq_sum[OF assms] have "- (\<Sum>x \<in> ?S. ?p x * ln (?p x)) \<le> ln ?N"
    by (simp add: sum_negf)
  from divide_right_mono[OF this, of "ln 2"]
  have "- (\<Sum>x \<in> ?S. ?p x * ln (?p x)) / ln 2 \<le> ln ?N / ln 2"
    by simp
  moreover have "shannon traj = - (\<Sum>x \<in> ?S. ?p x * ln (?p x)) / ln 2"
    by (simp add: shannon_def log_def sum_divide_distrib)
  ultimately show ?thesis by (simp add: log_def)
qed

text \<open>
  C9. The two lemmas above are facts of exact arithmetic about the visitation frequencies:
  their Shannon entropy is at least 0 and at most \<open>log\<^sub>2\<close> of the number of distinct
  locations. They do not bound what the program returns. The program computes in IEEE
  doubles, which this theory does not model, and the upper bound is attained: when every
  location is visited equally often the exact quotient is 1, with no room for rounding.
  For five locations visited once each the program returns \<^verbatim>\<open>1.0000000000000002\<close>, above the
  range \<open>[0, 1]\<close> that the docstring of \<^verbatim>\<open>_uncorrelated_entropy_individual\<close> promises.
\<close>

lemma shannon_equal_visits:
  "shannon [1, 2, 3, 4, 5 :: int] = log 2 5"
proof -
  have f: "visit_freq [1, 2, 3, 4, 5 :: int] x = 1 / 5" if "x \<in> set [1, 2, 3, 4, 5 :: int]" for x
    using that by (auto simp: visit_freq_def)
  have "(\<Sum>x \<in> set [1, 2, 3, 4, 5 :: int].
           visit_freq [1, 2, 3, 4, 5] x * log 2 (visit_freq [1, 2, 3, 4, 5] x))
          = (\<Sum>x \<in> set [1, 2, 3, 4, 5 :: int]. (1 / 5) * log 2 (1 / 5))"
    by (rule sum.cong[OF refl]) (simp only: f)
  also have "\<dots> = log 2 (1 / 5)" by simp
  also have "\<dots> = - log 2 5" by (simp add: log_divide)
  finally show ?thesis by (simp add: shannon_def)
qed

text \<open>
  C10. Two trajectories with the same visits in a different order have the same random
  entropy and the same uncorrelated entropy, normalised or not.
\<close>

theorem order_independent:
  assumes "mset xs = mset ys"
  shows "random_entropy_individual xs = random_entropy_individual ys
       \<and> uncorrelated_entropy_individual xs b = uncorrelated_entropy_individual ys b"
proof -
  from assms have s: "set xs = set ys" by (rule mset_eq_setD)
  from assms have l: "length xs = length ys" by (rule mset_eq_length)
  have c: "count_list xs x = count_list ys x" for x
    using assms by (metis count_mset)
  have r: "random_entropy_individual xs = random_entropy_individual ys"
    by (simp add: random_entropy_individual_def length_remdups_card_conv s)
  have sh: "shannon xs = shannon ys"
    by (simp add: shannon_def visit_freq_def s l c)
  have u: "uncorrelated_entropy_individual xs b = uncorrelated_entropy_individual ys b"
  proof (cases "xs = []")
    case True
    with l show ?thesis by simp
  next
    case False
    with l have "ys \<noteq> []" by auto
    from uncorrelated_shannon[OF False] uncorrelated_shannon[OF this] sh s
    show ?thesis by (cases b) simp_all
  qed
  from r u show ?thesis ..
qed

theorem order_independent_witness:
  "mset [5, 6, 5 :: int] = mset [5, 5, 6 :: int]
   \<and> (random_entropy_individual [5, 6, 5 :: int] = random_entropy_individual [5, 5, 6 :: int]
       \<and> uncorrelated_entropy_individual [5, 6, 5 :: int] True
            = uncorrelated_entropy_individual [5, 5, 6 :: int] True)"
proof -
  have h: "mset [5, 6, 5 :: int] = mset [5, 5, 6 :: int]" by simp
  show ?thesis by (rule conjI[OF h order_independent[OF h]])
qed

text \<open>
  The random entropy reads only the set of visited locations, and the real entropy does
  depend on the order of the visits.
\<close>

lemma random_entropy_of_set:
  "set xs = set ys \<Longrightarrow> random_entropy_individual xs = random_entropy_individual ys"
  by (simp add: random_entropy_individual_def length_remdups_card_conv)

lemma true_entropy_order_sensitive:
  "true_entropy str_whole [[1, 1], [1, 1], [2, 2]] \<noteq> true_entropy str_whole [[1, 1], [2, 2], [1, 1]]"
proof -
  have a: "match_lengths str_whole [[1, 1], [1, 1], [2, 2]] = Some [3]" by code_simp
  have b: "match_lengths str_whole [[1, 1], [2, 2], [1, 1]] = Some [1]" by code_simp
  have "(0 :: real) < log 2 3" by simp
  then have "3 * log 2 3 / 6 < (3 * log 2 3 / 4 :: real)" by simp
  then have "3 * log 2 3 / 6 \<noteq> (3 * log 2 3 / 4 :: real)" by (rule less_imp_neq)
  with true_entropy_of_lengths[OF a] true_entropy_of_lengths[OF b] show ?thesis by simp
qed

end
